theory Spec2Isabelle
  imports Main "HOL-Library.Word"
begin

section \<open>Status codes and exceptions\<close>

text \<open>
  \<open>enum class status : int\<close> mirrors the result codes of the engine: the
  \<open>static_assert\<close>s at the head of \<open>database.cc\<close> pin every enumerator to its
  \<open>SQLITE_...\<close> constant. Extended result codes are enabled on open
  (\<open>SQLITE_OPEN_EXRESCODE\<close>), so a status is any \<open>int\<close>, not only a listed one. Listed
  here are the codes that \<open>check\<close>, \<open>raise\<close> and \<open>close\<close> name, with their values in
  \<open>sqlite3.h\<close>.
\<close>

type_synonym status = int

definition status_ok :: status where "status_ok = 0"
definition status_internal :: status where "status_internal = 2"
definition status_busy :: status where "status_busy = 5"
definition status_nomem :: status where "status_nomem = 7"
definition status_misuse :: status where "status_misuse = 21"
definition status_range :: status where "status_range = 25"
definition status_notice :: status where "status_notice = 27"
definition status_warning :: status where "status_warning = 28"
definition status_row :: status where "status_row = 100"
definition status_done :: status where "status_done = 101"

text \<open>
  Modelled from the spec: \<open>ok(status)\<close> is declared in \<open>base.hh\<close>, which is not among
  the sources. The spec speaks of an "ok" and a "non-ok" status; the only status the
  code treats as success is \<open>status::ok\<close>.
\<close>

definition ok :: "status \<Rightarrow> bool" where
  "ok rc = (rc = status_ok)"

text \<open>
  What a call can end with other than a returned value: one of the C++ exceptions the
  code throws, or \<open>std::terminate\<close> (an exception leaving a \<open>noexcept\<close> function).
\<close>

datatype failure =
    logic_error string
  | invalid_argument string
  | bad_alloc
  | database_error string status
  | terminate

type_synonym 'a outcome = "failure + 'a"

section \<open>Formatting\<close>

text \<open>\<open>%d\<close> and \<open>std::to_string(int)\<close>: decimal digits, a minus sign when negative.\<close>

fun digits :: "nat \<Rightarrow> string" where
  "digits n = (if n < 10 then [''0123456789'' ! n]
               else digits (n div 10) @ [''0123456789'' ! (n mod 10)])"

definition to_string :: "int \<Rightarrow> string" where
  "to_string i = (if i < 0 then CHR ''-'' # digits (nat (- i)) else digits (nat i))"

text \<open>\<open>snprintf(buf, size, ...)\<close> keeps at most \<open>size - 1\<close> characters.\<close>

definition snprintf :: "nat \<Rightarrow> string \<Rightarrow> string" where
  "snprintf n s = take (n - 1) s"

section \<open>The error-checking layer\<close>

text \<open>
  \<open>checking::raise(status, const char*)\<close> always throws; the model returns the
  exception thrown. The \<open>switch\<close> is on \<open>int(rc)\<close>, in the source's order.
\<close>

definition raise :: "status \<Rightarrow> string \<Rightarrow> failure" where
  "raise rc msg =
     (if rc = status_internal then logic_error msg
      else if rc = status_nomem then bad_alloc
      else if rc = status_range \<or> rc = status_misuse then invalid_argument msg
      else if rc = status_ok \<or> rc = status_notice \<or> rc = status_warning
              \<or> rc = status_row \<or> rc = status_done
        then logic_error (''invalid call to throw_, err='' @ to_string rc)
      else database_error msg rc)"

text \<open>
  \<open>checking::check(status)\<close>. The message is what \<open>raise(status)\<close> reads from the
  connection (\<open>sqlite3_errmsg\<close>, or the empty string once the connection is gone).
\<close>

definition check :: "bool \<Rightarrow> string \<Rightarrow> status \<Rightarrow> status outcome" where
  "check exceptions msg rc =
     (if \<not> ok rc then
        (if exceptions \<or> rc = status_misuse then
           (if rc \<noteq> status_done \<and> rc \<noteq> status_row then Inl (raise rc msg) else Inr rc)
         else Inr rc)
      else Inr rc)"

section \<open>The engine boundary\<close>

text \<open>
  The embedded engine is an external collaborator. Everything the code asks of it is a
  parameter of the model, over an arbitrary type \<open>'e\<close> of engine states:
  \<^item> \<open>prepare sql e\<close>: the status of compiling \<open>sql\<close> (\<open>sqlite3_prepare\<close>);
  \<^item> \<open>run sql e\<close>: what \<open>command::execute()\<close> of the compiled \<open>sql\<close> ends with (a
    returned status, or an exception of the statement layer, whose code is not among
    the sources) and the engine state afterwards;
  \<^item> \<open>get_autocommit e\<close>: \<open>sqlite3_get_autocommit\<close>;
  \<^item> \<open>errmsg e\<close>: \<open>sqlite3_errmsg\<close>;
  \<^item> \<open>close_handle e\<close>: the status of \<open>sqlite3_close\<close> and the state it leaves;
  \<^item> \<open>close_v2 e\<close>: the state after \<open>sqlite3_db_config(SQLITE_DBCONFIG_NO_CKPT_ON_CLOSE)\<close>
    and \<open>sqlite3_close_v2\<close>.
\<close>

record 'e engine =
  prepare :: "string \<Rightarrow> 'e \<Rightarrow> status"
  run :: "string \<Rightarrow> 'e \<Rightarrow> status outcome \<times> 'e"
  get_autocommit :: "'e \<Rightarrow> bool"
  errmsg :: "'e \<Rightarrow> string"
  close_handle :: "'e \<Rightarrow> status \<times> 'e"
  close_v2 :: "'e \<Rightarrow> 'e"

section \<open>The connection\<close>

text \<open>
  \<open>db_handle = std::shared_ptr<sqlite3>\<close>: null, or a handle together with its deleter
  and the number of owners other than this \<open>database\<close> object. The deleter is the
  lambda \<open>close_db\<close> of \<open>connect\<close>, or the one of \<open>database(sqlite3*)\<close>, which does
  nothing.
\<close>

datatype deleter = close_db | keep_open

datatype shared_ptr = nullptr | shared deleter nat

fun use_count :: "shared_ptr \<Rightarrow> nat" where
  "use_count nullptr = 0"
| "use_count (shared d others) = Suc others"

text \<open>
  \<open>db_weak_ref = std::weak_ptr<sqlite3>\<close>, the member \<open>weak_db_\<close> of \<open>checking\<close>: empty or
  expired; or referring to the handle that \<open>db_\<close> holds; or referring to a handle that
  lives elsewhere (that of a moved-from object, or of an earlier connection that others
  still own), with the state of the engine behind it. The constructors assign it
  (\<open>weak_db_ = db_\<close>) and move assignment copies it with the rest of \<open>checking\<close>;
  \<open>connect\<close> assigns \<open>db_\<close> alone.
\<close>

datatype 'e weak_ptr = weak_expired | weak_to_own | weak_to_other 'e

text \<open>
  A compiled statement holds its own parameter bindings and cursor position. A statement
  cache maps the exact SQL text to its one compiled statement; a statement handed to a
  caller is a reference to that entry.
\<close>

record stmt_state =
  bindings :: "nat \<rightharpoonup> string"
  stepping :: bool

type_synonym statement_cache = "string \<rightharpoonup> stmt_state"

datatype stmt_ref = command_ref string | query_ref string

text \<open>
  The members of \<open>class database\<close> that the transactions, the caches and \<open>close\<close> use
  (\<open>exceptions_\<close> and \<open>weak_db_\<close> are inherited from \<open>checking\<close>), the state of the engine behind the
  handle, and the SQL statements executed through \<open>command(sql).execute()\<close> so far, in
  order. The fields are the members without their trailing underscore (\<open>db_ptr\<close> is
  \<open>db_\<close>); \<open>txn_depth_\<close> is a C++ \<open>int\<close>, a 32-bit two's complement word read
  through \<open>sint\<close>.
\<close>

record 'e database =
  db_ptr :: shared_ptr
  weak_db :: "'e weak_ptr"
  exceptions :: bool
  txn_depth :: "32 word"
  txn_immediate :: bool
  commands :: "statement_cache option"
  queries :: "statement_cache option"
  conn :: 'e
  issued :: "string list"

text \<open>\<open>weak_db_.lock()\<close>: the state of the engine behind the handle it yields, if any.\<close>

definition weak_lock :: "'e database \<Rightarrow> 'e option" where
  "weak_lock db =
     (case weak_db db of
        weak_expired \<Rightarrow> None
      | weak_to_own \<Rightarrow> (if db_ptr db \<noteq> nullptr then Some (conn db) else None)
      | weak_to_other e \<Rightarrow> Some e)"

text \<open>\<open>database::check_handle\<close> and \<open>checking::check_get_db\<close>.\<close>

definition check_handle :: "'e database \<Rightarrow> unit outcome" where
  "check_handle db =
     (if db_ptr db = nullptr then Inl (logic_error ''database is not open'') else Inr ())"

definition check_get_db :: "'e database \<Rightarrow> 'e outcome" where
  "check_get_db db =
     (case weak_lock db of
        Some e \<Rightarrow> Inr e
      | None \<Rightarrow> Inl (logic_error ''database is no longer open''))"

text \<open>
  The member \<open>check(rc)\<close> of a \<open>database\<close>: \<open>raise(rc)\<close> locks \<open>weak_db_\<close> and reads the
  message of the handle it yields, or takes the empty message.
\<close>

definition db_check :: "'e engine \<Rightarrow> 'e database \<Rightarrow> status \<Rightarrow> status outcome" where
  "db_check E db rc =
     check (exceptions db) (case weak_lock db of Some e \<Rightarrow> errmsg E e | None \<Rightarrow> []) rc"

text \<open>
  \<open>database::in_transaction\<close> is declared \<open>noexcept\<close>: the exception of
  \<open>check_handle\<close> on a closed connection cannot leave it.
\<close>

definition in_transaction :: "'e engine \<Rightarrow> 'e database \<Rightarrow> bool outcome" where
  "in_transaction E db =
     (case check_handle db of
        Inl _ \<Rightarrow> Inl terminate
      | Inr _ \<Rightarrow> Inr (\<not> get_autocommit E (conn db)))"

section \<open>The statement cache\<close>

text \<open>
  Modelled from the spec: \<open>statement_cache<STMT>::compile\<close> is in
  \<open>statement_cache.hh\<close>, which is not among the sources. Spec 4.1: it "compiles the
  statement if not already cached for this connection, else returns the cached entry
  with its bindings pre-cleared" (and, by the data model, its step cursor reset); it
  "fails with EngineError carrying the engine's diagnostic code/message if the SQL is
  malformed, and with InvalidState if the owning connection is closed".
\<close>

definition invalid_state :: failure where
  "invalid_state = logic_error ''database is no longer open''"

definition engine_error :: "status \<Rightarrow> string \<Rightarrow> failure" where
  "engine_error rc msg = database_error msg rc"

definition compile ::
  "'e engine \<Rightarrow> 'e database \<Rightarrow> statement_cache \<Rightarrow> string \<Rightarrow> statement_cache outcome" where
  "compile E db cache sql =
     (if db_ptr db = nullptr then Inl invalid_state
      else case cache sql of
        Some st \<Rightarrow> Inr (cache(sql \<mapsto> st\<lparr>bindings := Map.empty, stepping := False\<rparr>))
      | None \<Rightarrow>
          (let rc = prepare E sql (conn db) in
           if ok rc then Inr (cache(sql \<mapsto> \<lparr>bindings = Map.empty, stepping = False\<rparr>))
           else Inl (engine_error rc (errmsg E (conn db)))))"

text \<open>
  \<open>database::command\<close> and \<open>database::query\<close>: the cache is created on first use, also
  when the compilation then fails.
\<close>

definition command :: "'e engine \<Rightarrow> string \<Rightarrow> 'e database \<Rightarrow> stmt_ref outcome \<times> 'e database" where
  "command E sql db =
     (let cache = (case commands db of None \<Rightarrow> Map.empty | Some c \<Rightarrow> c) in
      case compile E db cache sql of
        Inl f \<Rightarrow> (Inl f, db\<lparr>commands := Some cache\<rparr>)
      | Inr cache' \<Rightarrow> (Inr (command_ref sql), db\<lparr>commands := Some cache'\<rparr>))"

definition query :: "'e engine \<Rightarrow> string \<Rightarrow> 'e database \<Rightarrow> stmt_ref outcome \<times> 'e database" where
  "query E sql db =
     (let cache = (case queries db of None \<Rightarrow> Map.empty | Some c \<Rightarrow> c) in
      case compile E db cache sql of
        Inl f \<Rightarrow> (Inl f, db\<lparr>queries := Some cache\<rparr>)
      | Inr cache' \<Rightarrow> (Inr (query_ref sql), db\<lparr>queries := Some cache'\<rparr>))"

text \<open>
  \<open>command(sql).execute()\<close>, as the transaction code calls it: the statement comes from
  the command cache, is run by the engine, and is recorded in \<open>issued\<close>.
\<close>

definition exec_command ::
  "'e engine \<Rightarrow> string \<Rightarrow> 'e database \<Rightarrow> status outcome \<times> 'e database" where
  "exec_command E sql db =
     (case command E sql db of
        (Inl f, db1) \<Rightarrow> (Inl f, db1)
      | (Inr c, db1) \<Rightarrow>
          (case run E sql (conn db1) of
             (r, e) \<Rightarrow> (r, db1\<lparr>conn := e, issued := issued db1 @ [sql]\<rparr>)))"

section \<open>Transactions\<close>

definition savepoint_sql :: "32 word \<Rightarrow> string" where
  "savepoint_sql depth = snprintf 30 (''SAVEPOINT sp_'' @ to_string (sint (depth + 1)))"

definition rollback_to_sql :: "32 word \<Rightarrow> string" where
  "rollback_to_sql depth = snprintf 50 (''ROLLBACK TO SAVEPOINT sp_'' @ to_string (sint depth))"

definition release_sql :: "32 word \<Rightarrow> string" where
  "release_sql depth = snprintf 50 (''RELEASE SAVEPOINT sp_'' @ to_string (sint depth))"

text \<open>
  The first block of \<open>database::beginTransaction\<close> (\<open>if (txn_depth == 0) ...\<close>):
  \<open>Inl\<close> is an early exit of the whole call with its outcome, \<open>Inr\<close> goes on.
\<close>

definition begin_outer ::
  "'e engine \<Rightarrow> bool \<Rightarrow> 'e database \<Rightarrow> (status outcome \<times> 'e database) + 'e database" where
  "begin_outer E immediate db =
     (if txn_depth db = 0 then
        (if immediate then
           (case in_transaction E db of
              Inl f \<Rightarrow> Inl (Inl f, db)
            | Inr True \<Rightarrow> Inl (Inl (logic_error ''unexpectedly already in a transaction''), db)
            | Inr False \<Rightarrow>
                (case exec_command E ''BEGIN IMMEDIATE'' db of
                   (Inl f, db1) \<Rightarrow> Inl (Inl f, db1)
                 | (Inr rc, db1) \<Rightarrow>
                     if \<not> ok rc then Inl (Inr rc, db1)
                     else Inr (db1\<lparr>txn_immediate := immediate\<rparr>)))
         else Inr (db\<lparr>txn_immediate := immediate\<rparr>))
      else Inr db)"

definition beginTransaction ::
  "'e engine \<Rightarrow> bool \<Rightarrow> 'e database \<Rightarrow> status outcome \<times> 'e database" where
  "beginTransaction E immediate db =
     (case begin_outer E immediate db of
        Inl early \<Rightarrow> early
      | Inr db1 \<Rightarrow>
          (case exec_command E (savepoint_sql (txn_depth db1)) db1 of
             (Inl f, db2) \<Rightarrow> (Inl f, db2)
           | (Inr rc, db2) \<Rightarrow>
               if \<not> ok rc then
                 (if txn_depth db2 = 0 \<and> immediate then
                    (case exec_command E ''ROLLBACK'' db2 of
                       (Inl f, db3) \<Rightarrow> (Inl f, db3)
                     | (Inr _, db3) \<Rightarrow> (Inr rc, db3))
                  else (Inr rc, db2))
               else (Inr status_ok, db2\<lparr>txn_depth := txn_depth db2 + 1\<rparr>)))"

text \<open>
  \<open>database::endTransaction\<close>, in three parts: the optional \<open>ROLLBACK TO\<close>, the final
  \<open>COMMIT\<close>/\<open>ROLLBACK\<close> once the depth is back at 0, and the whole.
\<close>

definition end_rollback_to ::
  "'e engine \<Rightarrow> bool \<Rightarrow> 'e database \<Rightarrow> (status outcome \<times> 'e database) + 'e database" where
  "end_rollback_to E commit db =
     (if \<not> commit then
        (case exec_command E (rollback_to_sql (txn_depth db)) db of
           (Inl f, db1) \<Rightarrow> Inl (Inl f, db1)
         | (Inr rc, db1) \<Rightarrow> if \<not> ok rc then Inl (Inr rc, db1) else Inr db1)
      else Inr db)"

definition end_outer ::
  "'e engine \<Rightarrow> bool \<Rightarrow> 'e database \<Rightarrow> status outcome \<times> 'e database" where
  "end_outer E commit db =
     (if txn_depth db = 0 then
        (if txn_immediate db then
           (case in_transaction E db of
              Inl f \<Rightarrow> (Inl f, db)
            | Inr False \<Rightarrow> (Inl (logic_error ''unexpectedly not in a transaction''), db)
            | Inr True \<Rightarrow>
                (case exec_command E (if commit then ''COMMIT'' else ''ROLLBACK'') db of
                   (Inl f, db1) \<Rightarrow> (Inl f, db1)
                 | (Inr rc, db1) \<Rightarrow>
                     if \<not> ok rc then (Inr rc, db1\<lparr>txn_depth := txn_depth db1 + 1\<rparr>)
                     else (Inr status_ok, db1)))
         else (Inr status_ok, db))
      else (Inr status_ok, db))"

definition endTransaction ::
  "'e engine \<Rightarrow> bool \<Rightarrow> 'e database \<Rightarrow> status outcome \<times> 'e database" where
  "endTransaction E commit db =
     (if txn_depth db \<le>s 0 then (Inl (logic_error ''transaction underflow''), db)
      else
        (case end_rollback_to E commit db of
           Inl early \<Rightarrow> early
         | Inr db1 \<Rightarrow>
             (case exec_command E (release_sql (txn_depth db1)) db1 of
                (Inl f, db2) \<Rightarrow> (Inl f, db2)
              | (Inr rc, db2) \<Rightarrow>
                  if \<not> ok rc then (Inr rc, db2)
                  else end_outer E commit (db2\<lparr>txn_depth := txn_depth db2 - 1\<rparr>))))"

section \<open>Closing\<close>

text \<open>
  The deleter of the handle, run when its last owner lets go. \<open>close_db\<close> calls
  \<open>sqlite3_close\<close>; when that reports \<open>busy\<close> (statements, blob streams or backups of
  the connection are still live) it prints a warning to \<open>stderr\<close> and closes with
  \<open>sqlite3_close_v2\<close>.
\<close>

definition run_deleter :: "'e engine \<Rightarrow> shared_ptr \<Rightarrow> 'e \<Rightarrow> 'e" where
  "run_deleter E p e =
     (case p of
        shared close_db others \<Rightarrow>
          (case close_handle E e of
             (rc, e1) \<Rightarrow> if rc = status_busy then close_v2 E e1 else e1)
      | shared keep_open others \<Rightarrow> e
      | nullptr \<Rightarrow> e)"

text \<open>
  \<open>database::close\<close>. The parameter \<open>immediately\<close> is not read by the body. \<open>db_ = nullptr\<close>
  is reached only by the last owner: the deleter runs, and the weak references to the
  handle expire.
\<close>

definition close :: "'e engine \<Rightarrow> bool \<Rightarrow> 'e database \<Rightarrow> status outcome \<times> 'e database" where
  "close E immediately db =
     (let db1 = db\<lparr>commands := None, queries := None\<rparr> in
      if db_ptr db1 \<noteq> nullptr then
        (if use_count (db_ptr db1) > 1 then (db_check E db1 status_busy, db1)
         else (Inr status_ok,
               db1\<lparr>db_ptr := nullptr,
                   weak_db := (case weak_db db1 of weak_to_own \<Rightarrow> weak_expired | w \<Rightarrow> w),
                   conn := run_deleter E (db_ptr db1) (conn db1)\<rparr>))
      else (Inr status_ok, db1))"

section \<open>Sequences of transaction calls\<close>

text \<open>
  A caller's sequence of \<open>beginTransaction\<close>/\<open>endTransaction\<close> calls on one connection.
  An exception reaches the caller, who goes on with the next call on the same object.
\<close>

datatype call = begin_call bool | end_call bool

fun do_call :: "'e engine \<Rightarrow> call \<Rightarrow> 'e database \<Rightarrow> status outcome \<times> 'e database" where
  "do_call E (begin_call immediate) db = beginTransaction E immediate db"
| "do_call E (end_call commit) db = endTransaction E commit db"

fun run_calls ::
  "'e engine \<Rightarrow> call list \<Rightarrow> 'e database \<Rightarrow> status outcome list \<times> 'e database" where
  "run_calls E [] db = ([], db)"
| "run_calls E (c # cs) db =
     (case do_call E c db of
        (r, db1) \<Rightarrow> (case run_calls E cs db1 of (rs, db2) \<Rightarrow> (r # rs, db2)))"

fun is_begin :: "call \<Rightarrow> bool" where
  "is_begin (begin_call _) = True"
| "is_begin (end_call _) = False"

text \<open>The begins and the ends of a sequence that returned \<open>status::ok\<close>.\<close>

definition ok_begins :: "call list \<Rightarrow> status outcome list \<Rightarrow> nat" where
  "ok_begins cs rs = length (filter (\<lambda>(c, r). is_begin c \<and> r = Inr status_ok) (zip cs rs))"

definition ok_ends :: "call list \<Rightarrow> status outcome list \<Rightarrow> nat" where
  "ok_ends cs rs = length (filter (\<lambda>(c, r). \<not> is_begin c \<and> r = Inr status_ok) (zip cs rs))"

definition returned :: "status outcome \<Rightarrow> bool" where
  "returned r = (case r of Inl _ \<Rightarrow> False | Inr _ \<Rightarrow> True)"

text \<open>
  The savepoint statements of an \<open>endTransaction(commit)\<close> call succeed: \<open>ROLLBACK TO\<close>
  (when \<open>commit\<close> is false) and \<open>RELEASE\<close> both return \<open>status::ok\<close>. An \<open>endTransaction\<close>
  call that raises after that has passed \<open>--txn_depth_\<close>.
\<close>

definition released :: "'e engine \<Rightarrow> bool \<Rightarrow> 'e database \<Rightarrow> bool" where
  "released E commit db =
     (case end_rollback_to E commit db of
        Inl _ \<Rightarrow> False
      | Inr db1 \<Rightarrow>
          (case exec_command E (release_sql (txn_depth db1)) db1 of
             (Inl _, _) \<Rightarrow> False
           | (Inr rc, _) \<Rightarrow> ok rc))"

fun raises_late :: "'e engine \<Rightarrow> call \<Rightarrow> 'e database \<Rightarrow> bool" where
  "raises_late E (begin_call immediate) db = False"
| "raises_late E (end_call commit) db =
     (0 < sint (txn_depth db) \<and> released E commit db \<and>
      \<not> returned (fst (endTransaction E commit db)))"

fun late_raises :: "'e engine \<Rightarrow> call list \<Rightarrow> 'e database \<Rightarrow> nat" where
  "late_raises E [] db = 0"
| "late_raises E (c # cs) db =
     (if raises_late E c db then 1 else 0) + late_raises E cs (snd (do_call E c db))"

section \<open>Using cached statements\<close>

text \<open>
  Modelled from the spec: the statement classes (\<open>query.hh\<close>) are not among the sources.
  Spec 3 and 6: a compiled statement holds "mutable bound-parameter state" and a step
  cursor, changed by binding a parameter, \<open>execute\<close>, \<open>reset\<close> and \<open>clear_bindings\<close>. A
  statement obtained from \<open>database::command\<close> or \<open>database::query\<close> refers to the entry
  of its cache.
\<close>

definition stmt_lookup :: "'e database \<Rightarrow> stmt_ref \<Rightarrow> stmt_state option" where
  "stmt_lookup db ref =
     (case ref of
        command_ref sql \<Rightarrow> (case commands db of None \<Rightarrow> None | Some c \<Rightarrow> c sql)
      | query_ref sql \<Rightarrow> (case queries db of None \<Rightarrow> None | Some c \<Rightarrow> c sql))"

definition cache_update ::
  "string \<Rightarrow> (stmt_state \<Rightarrow> stmt_state) \<Rightarrow> statement_cache option \<Rightarrow> statement_cache option" where
  "cache_update sql f cache =
     (case cache of
        None \<Rightarrow> None
      | Some c \<Rightarrow> (case c sql of None \<Rightarrow> Some c | Some st \<Rightarrow> Some (c(sql \<mapsto> f st))))"

definition stmt_update ::
  "stmt_ref \<Rightarrow> (stmt_state \<Rightarrow> stmt_state) \<Rightarrow> 'e database \<Rightarrow> 'e database" where
  "stmt_update ref f db =
     (case ref of
        command_ref sql \<Rightarrow> db\<lparr>commands := cache_update sql f (commands db)\<rparr>
      | query_ref sql \<Rightarrow> db\<lparr>queries := cache_update sql f (queries db)\<rparr>)"

datatype action =
    bind_param stmt_ref nat string
  | step_stmt stmt_ref
  | reset_stmt stmt_ref
  | clear_bindings stmt_ref
  | get_command string
  | get_query string
  | transaction_call call

text \<open>Everything a caller does with a connection and its statements, short of closing it.\<close>

fun perform :: "'e engine \<Rightarrow> action \<Rightarrow> 'e database \<Rightarrow> 'e database" where
  "perform E (bind_param ref i v) db =
     stmt_update ref (\<lambda>st. st\<lparr>bindings := (bindings st)(i \<mapsto> v)\<rparr>) db"
| "perform E (step_stmt ref) db = stmt_update ref (\<lambda>st. st\<lparr>stepping := True\<rparr>) db"
| "perform E (reset_stmt ref) db = stmt_update ref (\<lambda>st. st\<lparr>stepping := False\<rparr>) db"
| "perform E (clear_bindings ref) db = stmt_update ref (\<lambda>st. st\<lparr>bindings := Map.empty\<rparr>) db"
| "perform E (get_command sql) db = snd (command E sql db)"
| "perform E (get_query sql) db = snd (query E sql db)"
| "perform E (transaction_call c) db = snd (do_call E c db)"

fun perform_all :: "'e engine \<Rightarrow> action list \<Rightarrow> 'e database \<Rightarrow> 'e database" where
  "perform_all E [] db = db"
| "perform_all E (a # as) db = perform_all E as (perform E a db)"

text \<open>
  A statement of a given SQL text is in a cache; the state of a statement that was just
  handed out; and what using a connection, short of closing it, never undoes: the
  handle stays open and a cached statement stays cached.
\<close>

definition cached_in :: "string \<Rightarrow> statement_cache option \<Rightarrow> bool" where
  "cached_in sql cache = (case cache of None \<Rightarrow> False | Some c \<Rightarrow> c sql \<noteq> None)"

definition cleared :: stmt_state where
  "cleared = \<lparr>bindings = Map.empty, stepping = False\<rparr>"

definition keeps :: "string \<Rightarrow> 'e database \<Rightarrow> 'e database \<Rightarrow> bool" where
  "keeps sql db db' =
     (db_ptr db' = db_ptr db \<and>
      (cached_in sql (commands db) \<longrightarrow> cached_in sql (commands db')) \<and>
      (cached_in sql (queries db) \<longrightarrow> cached_in sql (queries db')))"

section \<open>The connection pool\<close>

text \<open>
  Modelled from the spec: the pool (\<open>pool.hh\<close>, \<open>pool.cc\<close>) is not among the sources; only
  its test is. Spec 3, 4.3 and 5: a pool is a bounded collection of slots, each a
  connection with a borrowed/idle flag and a writable/read-only tag, opened lazily up to
  the maximum open count; one registry holds the slot table and the two counters, and
  every operation on it is atomic (done under the registry lock).
  \<^item> \<open>try_borrow\<close> "returns an idle slot matching the writability requirement, opening a
    new connection against the pool's target if none idle and the open-count ceiling is
    not reached; otherwise ... returns empty"; a writable borrow also waits while "a
    writable transaction scope is currently active on any other writable slot"; a
    borrow while \<open>close_all\<close> is in progress is rejected. The blocking \<open>borrow\<close> changes
    the registry exactly as a \<open>try_borrow\<close> that is not empty.
  \<^item> Releasing "returns it to the idle set".
  \<^item> \<open>close_all\<close> "blocks until all borrowed connections are released, then closes
    every open connection and resets counters to zero": while connections are out it
    only marks the pool as closing, and the same step, taken again once they are back,
    completes it.
  \<^item> The pool-scoped transaction helper marks its borrowed writable slot as engaged in
    a transaction until its scope ends.
\<close>

record slot =
  slot_writable :: bool
  slot_borrowed :: bool
  slot_in_txn :: bool

record pool =
  max_open :: nat
  slots :: "slot list"
  open_counter :: nat
  borrowed_counter :: nat
  closing :: bool

definition new_pool :: "nat \<Rightarrow> pool" where
  "new_pool m = \<lparr>max_open = m, slots = [], open_counter = 0, borrowed_counter = 0, closing = False\<rparr>"

definition open_count :: "pool \<Rightarrow> nat" where
  "open_count p = open_counter p"

definition borrowed_count :: "pool \<Rightarrow> nat" where
  "borrowed_count p = borrowed_counter p"

definition idle_slots :: "pool \<Rightarrow> nat" where
  "idle_slots p = length (filter (\<lambda>s. \<not> slot_borrowed s) (slots p))"

text \<open>The index of the first idle slot of the wanted kind, if there is one.\<close>

fun find_idle :: "bool \<Rightarrow> slot list \<Rightarrow> nat option" where
  "find_idle w [] = None"
| "find_idle w (s # ss) =
     (if \<not> slot_borrowed s \<and> slot_writable s = w then Some 0
      else map_option Suc (find_idle w ss))"

definition writer_active :: "pool \<Rightarrow> bool" where
  "writer_active p = list_ex (\<lambda>s. slot_writable s \<and> slot_borrowed s \<and> slot_in_txn s) (slots p)"

datatype borrow_result = borrowed_slot nat | empty | busy

definition try_borrow :: "bool \<Rightarrow> pool \<Rightarrow> borrow_result \<times> pool" where
  "try_borrow w p =
     (if closing p then (busy, p)
      else if w \<and> writer_active p then (empty, p)
      else case find_idle w (slots p) of
        Some i \<Rightarrow>
          (borrowed_slot i,
           p\<lparr>slots := (slots p)[i := (slots p ! i)\<lparr>slot_borrowed := True\<rparr>],
             borrowed_counter := borrowed_counter p + 1\<rparr>)
      | None \<Rightarrow>
          if open_counter p < max_open p then
            (borrowed_slot (length (slots p)),
             p\<lparr>slots := slots p @ [\<lparr>slot_writable = w, slot_borrowed = True, slot_in_txn = False\<rparr>],
               open_counter := open_counter p + 1,
               borrowed_counter := borrowed_counter p + 1\<rparr>)
          else (empty, p))"

definition release :: "nat \<Rightarrow> pool \<Rightarrow> pool" where
  "release i p =
     (if i < length (slots p) \<and> slot_borrowed (slots p ! i) then
        p\<lparr>slots := (slots p)[i := (slots p ! i)\<lparr>slot_borrowed := False, slot_in_txn := False\<rparr>],
          borrowed_counter := borrowed_counter p - 1\<rparr>
      else p)"

definition close_all :: "pool \<Rightarrow> pool" where
  "close_all p =
     (if borrowed_counter p = 0 then
        p\<lparr>slots := [], open_counter := 0, borrowed_counter := 0, closing := False\<rparr>
      else p\<lparr>closing := True\<rparr>)"

definition txn_scope_begin :: "pool \<Rightarrow> borrow_result \<times> pool" where
  "txn_scope_begin p =
     (case try_borrow True p of
        (borrowed_slot i, p1) \<Rightarrow>
          (borrowed_slot i, p1\<lparr>slots := (slots p1)[i := (slots p1 ! i)\<lparr>slot_in_txn := True\<rparr>]\<rparr>)
      | (r, p1) \<Rightarrow> (r, p1))"

datatype pool_event =
    ev_borrow bool
  | ev_release nat
  | ev_close_all
  | ev_transaction

fun pool_step :: "pool \<Rightarrow> pool_event \<Rightarrow> pool" where
  "pool_step p (ev_borrow w) = snd (try_borrow w p)"
| "pool_step p (ev_release i) = release i p"
| "pool_step p ev_close_all = close_all p"
| "pool_step p ev_transaction = snd (txn_scope_begin p)"

text \<open>The registry after a history of events, each an observation point.\<close>

definition pool_after :: "nat \<Rightarrow> pool_event list \<Rightarrow> pool" where
  "pool_after m evs = foldl pool_step (new_pool m) evs"

text \<open>The registry is consistent: the counters say what the slot table holds.\<close>

definition pool_inv :: "pool \<Rightarrow> bool" where
  "pool_inv p =
     (open_counter p = length (slots p) \<and>
      borrowed_counter p = length (filter slot_borrowed (slots p)) \<and>
      open_counter p \<le> max_open p)"

section \<open>A scripted engine\<close>

text \<open>
  A concrete engine for running the model on examples: its state counts the statements
  run so far; the \<open>n\<close>-th statement ends with the \<open>n\<close>-th entry of a script (\<open>status::ok\<close>
  beyond its end), and after \<open>n\<close> statements autocommit is the \<open>n\<close>-th entry of a second
  list (on beyond its end).
\<close>

definition scripted :: "status outcome list \<Rightarrow> bool list \<Rightarrow> nat engine" where
  "scripted rs acs =
     \<lparr>prepare = (\<lambda>sql n. status_ok),
      run = (\<lambda>sql n. (if n < length rs then rs ! n else Inr status_ok, Suc n)),
      get_autocommit = (\<lambda>n. if n < length acs then acs ! n else True),
      errmsg = (\<lambda>n. []),
      close_handle = (\<lambda>n. (status_ok, n)),
      close_v2 = (\<lambda>n. n)\<rparr>"

text \<open>
  A connection newly opened by the constructor \<open>database(filename, flags)\<close>, which
  connects and then sets \<open>weak_db_\<close>, with \<open>exceptions(ex)\<close> called on it: no transaction,
  no caches, no other owner of the handle.
\<close>

definition connected :: "bool \<Rightarrow> 'e \<Rightarrow> 'e database" where
  "connected ex e =
     \<lparr>db_ptr = shared close_db 0, weak_db = weak_to_own, exceptions = ex, txn_depth = 0,
      txn_immediate = False, commands = None, queries = None, conn = e, issued = []\<rparr>"

text \<open>
  An engine that keeps track of what \<open>sqlite3_close\<close> depends on: the connection is open,
  with or without statements, blob streams or backups still live; or closed; or kept
  by \<open>sqlite3_close_v2\<close> as a zombie until they are gone. \<open>sqlite3_close\<close> refuses with
  \<open>busy\<close> while something is live.
\<close>

datatype handle_state = handle_open bool | handle_closed | handle_zombie

definition closing_engine :: "handle_state engine" where
  "closing_engine =
     \<lparr>prepare = (\<lambda>sql e. status_ok),
      run = (\<lambda>sql e. (Inr status_ok, e)),
      get_autocommit = (\<lambda>e. True),
      errmsg = (\<lambda>e. []),
      close_handle =
        (\<lambda>e. case e of
           handle_open live \<Rightarrow> if live then (status_busy, e) else (status_ok, handle_closed)
         | handle_closed \<Rightarrow> (status_misuse, e)
         | handle_zombie \<Rightarrow> (status_misuse, e)),
      close_v2 =
        (\<lambda>e. case e of
           handle_open live \<Rightarrow> if live then handle_zombie else handle_closed
         | handle_closed \<Rightarrow> e
         | handle_zombie \<Rightarrow> e)\<rparr>"

section \<open>Evaluation rules\<close>

lemmas status_defs =
  status_ok_def status_internal_def status_busy_def
  status_nomem_def status_misuse_def status_range_def
  status_notice_def status_warning_def status_row_def status_done_def

declare digits.simps [simp del]

lemmas digits_eval =
  digits.simps [of 0] digits.simps [of 1] digits.simps [of "Suc 0"] digits.simps [of "numeral k"]
  for k

lemmas txn_eval =
  beginTransaction_def begin_outer_def endTransaction_def end_rollback_to_def end_outer_def
  exec_command_def command_def compile_def in_transaction_def check_handle_def
  savepoint_sql_def rollback_to_sql_def release_sql_def snprintf_def to_string_def digits_eval
  ok_def status_defs scripted_def connected_def word_sle_eq

lemmas run_eval = txn_eval returned_def ok_begins_def ok_ends_def released_def

section \<open>The SQL text of the savepoint statements\<close>

text \<open>
  The buffers (\<open>char sql[30]\<close>, \<open>char sql[50]\<close>) are long enough for every \<open>int\<close>:
  \<open>snprintf\<close> never truncates the statement.
\<close>

lemma length_digits: "0 < k \<Longrightarrow> n < 10 ^ k \<Longrightarrow> length (digits n) \<le> k"
proof (induction k arbitrary: n)
  case 0
  then show ?case by simp
next
  case (Suc k)
  show ?case
  proof (cases "n < 10")
    case True
    then show ?thesis by (simp add: digits.simps [of n])
  next
    case False
    with Suc.prems have k: "0 < k" by (cases k) auto
    from Suc.prems have "n div 10 < 10 ^ k" by (simp add: less_mult_imp_div_less mult.commute)
    with Suc.IH k have "length (digits (n div 10)) \<le> k" by blast
    with False show ?thesis by (simp add: digits.simps [of n])
  qed
qed

lemma length_to_string_sint: "length (to_string (sint (w :: 32 word))) \<le> 11"
proof -
  have lo: "- (2 ^ 31) \<le> sint w" using sint_ge [of w] by simp
  have hi: "sint w < 2 ^ 31" using sint_lt [of w] by simp
  have "nat \<bar>sint w\<bar> < 10 ^ 10" using lo hi by simp
  then have "length (digits (nat \<bar>sint w\<bar>)) \<le> 10" by (intro length_digits) simp_all
  then show ?thesis by (auto simp: to_string_def abs_if split: if_splits)
qed

lemma savepoint_sql_eq: "savepoint_sql d = ''SAVEPOINT sp_'' @ to_string (sint (d + 1))"
  using length_to_string_sint [of "d + 1"] by (simp add: savepoint_sql_def snprintf_def)

lemma rollback_to_sql_eq: "rollback_to_sql d = ''ROLLBACK TO SAVEPOINT sp_'' @ to_string (sint d)"
  using length_to_string_sint [of d] by (simp add: rollback_to_sql_def snprintf_def)

lemma release_sql_eq: "release_sql d = ''RELEASE SAVEPOINT sp_'' @ to_string (sint d)"
  using length_to_string_sint [of d] by (simp add: release_sql_def snprintf_def)

lemma savepoint_sql_0: "savepoint_sql 0 = ''SAVEPOINT sp_1''"
  by (simp add: txn_eval)

lemma sql_depth_1:
  "rollback_to_sql 1 = ''ROLLBACK TO SAVEPOINT sp_1''"
  "release_sql 1 = ''RELEASE SAVEPOINT sp_1''"
  by (simp_all add: txn_eval)

lemma to_string_1: "to_string 1 = ''1''"
  by (simp add: to_string_def digits_eval)

section \<open>Depth arithmetic\<close>

lemma positive_depth: "0 < sint (d :: 32 word) \<Longrightarrow> \<not> d \<le>s 0"
  by (simp add: word_sle_eq)

lemma word_dec_zero: "(d :: 32 word) - 1 = 0 \<longleftrightarrow> d = 1"
  by auto

lemma sint_dec: "0 < sint (d :: 32 word) \<Longrightarrow> sint (d - 1) = sint d - 1"
proof -
  assume pos: "0 < sint d"
  have hi: "sint d < 2 ^ 31" using sint_lt [of d] by simp
  have "sint (d - 1) = signed_take_bit 31 (sint d - 1)"
    by (simp add: sint_word_ariths)
  also have "\<dots> = sint d - 1"
    using pos hi by (intro signed_take_bit_int_eq_self) simp_all
  finally show ?thesis .
qed

lemma sint_inc: "sint (d :: 32 word) < 2 ^ 31 - 1 \<Longrightarrow> sint (d + 1) = sint d + 1"
proof -
  assume hi: "sint d < 2 ^ 31 - 1"
  have lo: "- (2 ^ 31) \<le> sint d" using sint_ge [of d] by simp
  have "sint (d + 1) = signed_take_bit 31 (sint d + 1)"
    by (simp add: sint_word_ariths)
  also have "\<dots> = sint d + 1"
    using lo hi by (intro signed_take_bit_int_eq_self) simp_all
  finally show ?thesis .
qed

section \<open>What executing a command leaves alone\<close>

lemma command_fields:
  "command E sql db = (r, db') \<Longrightarrow>
     txn_depth db' = txn_depth db \<and> txn_immediate db' = txn_immediate db \<and>
     db_ptr db' = db_ptr db \<and> exceptions db' = exceptions db \<and>
     issued db' = issued db \<and> conn db' = conn db \<and> queries db' = queries db"
  by (auto simp: command_def Let_def split: sum.splits)

lemma exec_command_fields:
  "exec_command E sql db = (r, db') \<Longrightarrow>
     txn_depth db' = txn_depth db \<and> txn_immediate db' = txn_immediate db \<and>
     db_ptr db' = db_ptr db \<and> exceptions db' = exceptions db \<and> queries db' = queries db"
  by (auto simp: exec_command_def split: prod.splits sum.splits dest!: command_fields)

lemma exec_command_issued_returned:
  "exec_command E sql db = (Inr rc, db') \<Longrightarrow> issued db' = issued db @ [sql]"
  by (auto simp: exec_command_def split: prod.splits sum.splits dest!: command_fields)

lemma exec_command_issued:
  "exec_command E sql db = (r, db') \<Longrightarrow> issued db' = issued db \<or> issued db' = issued db @ [sql]"
  by (auto simp: exec_command_def split: prod.splits sum.splits dest!: command_fields)

lemma in_transaction_depth [simp]:
  "in_transaction E (db\<lparr>txn_depth := d\<rparr>) = in_transaction E db"
  by (simp add: in_transaction_def check_handle_def)

section \<open>The paths through \<open>beginTransaction\<close>\<close>

lemma begin_outer_early:
  assumes "begin_outer E immediate db = Inl (r, db')"
  shows "r \<noteq> Inr status_ok \<and> txn_depth db' = txn_depth db"
  using assms
  by (auto simp: begin_outer_def ok_def split: if_splits sum.splits bool.splits prod.splits
      dest: exec_command_fields)

lemma begin_outer_on:
  assumes "begin_outer E immediate db = Inr db1"
  shows "txn_depth db1 = txn_depth db"
  using assms
  by (auto simp: begin_outer_def split: if_splits sum.splits bool.splits prod.splits
      dest: exec_command_fields)

lemma beginTransaction_depth:
  assumes "beginTransaction E immediate db = (r, db')"
  shows "txn_depth db' = (if r = Inr status_ok then txn_depth db + 1 else txn_depth db)"
proof (cases "begin_outer E immediate db")
  case (Inl e)
  with assms have "begin_outer E immediate db = Inl (r, db')" by (simp add: beginTransaction_def)
  from begin_outer_early [OF this] show ?thesis by simp
next
  case (Inr db1)
  note d1 = begin_outer_on [OF Inr]
  obtain r2 db2 where sp: "exec_command E (savepoint_sql (txn_depth db1)) db1 = (r2, db2)"
    by force
  then have d2: "txn_depth db2 = txn_depth db" using d1 by (simp add: exec_command_fields)
  obtain r3 db3 where rb: "exec_command E ''ROLLBACK'' db2 = (r3, db3)" by force
  then have d3: "txn_depth db3 = txn_depth db" using d2 by (simp add: exec_command_fields)
  show ?thesis using assms Inr sp rb d2 d3
    by (auto simp: beginTransaction_def ok_def split: sum.splits if_splits)
qed

section \<open>The paths through \<open>endTransaction\<close>\<close>

lemma end_rollback_to_early:
  "end_rollback_to E commit db = Inl (r, db') \<Longrightarrow> r \<noteq> Inr status_ok"
  by (auto simp: end_rollback_to_def ok_def split: if_splits prod.splits sum.splits)

lemma end_outer_ok:
  assumes "end_outer E commit db = (Inr status_ok, db')"
  shows "txn_depth db' = txn_depth db \<and>
         issued db' = issued db @
           (if txn_depth db = 0 \<and> txn_immediate db
            then [if commit then ''COMMIT'' else ''ROLLBACK''] else [])"
proof (cases "txn_depth db = 0 \<and> txn_immediate db")
  case False
  with assms show ?thesis by (auto simp: end_outer_def split: if_splits)
next
  case True
  with assms obtain rc where
    ex: "exec_command E (if commit then ''COMMIT'' else ''ROLLBACK'') db = (Inr rc, db')" "ok rc"
    by (auto simp: end_outer_def ok_def status_defs split: sum.splits bool.splits prod.splits if_splits)
  from ex(1) have "txn_depth db' = txn_depth db" by (simp add: exec_command_fields)
  moreover from ex(1) have "issued db' = issued db @ [if commit then ''COMMIT'' else ''ROLLBACK'']"
    by (rule exec_command_issued_returned)
  ultimately show ?thesis using True by simp
qed

lemma end_outer_depth:
  assumes "end_outer E commit db = (r, db')"
  shows "txn_depth db' = (if returned r \<and> r \<noteq> Inr status_ok then txn_depth db + 1 else txn_depth db)"
  using assms
  by (auto simp: end_outer_def ok_def returned_def
      split: if_splits sum.splits bool.splits prod.splits dest: exec_command_fields)

lemma endTransaction_cases:
  assumes pos: "0 < sint (txn_depth db)" and res: "endTransaction E commit db = (r, db')"
  obtains
    (early) "txn_depth db' = txn_depth db" "r \<noteq> Inr status_ok"
  | (outer) db2 where "txn_depth db2 = txn_depth db" "txn_immediate db2 = txn_immediate db"
      "end_outer E commit (db2\<lparr>txn_depth := txn_depth db2 - 1\<rparr>) = (r, db')"
proof -
  have npos: "\<not> txn_depth db \<le>s 0" using pos by (rule positive_depth)
  show ?thesis
  proof (cases "end_rollback_to E commit db")
    case (Inl e)
    with res npos have e: "end_rollback_to E commit db = Inl (r, db')"
      by (simp add: endTransaction_def)
    then have "txn_depth db' = txn_depth db"
      by (auto simp: end_rollback_to_def split: if_splits prod.splits sum.splits
          dest: exec_command_fields)
    with end_rollback_to_early [OF e] show ?thesis by (intro early) simp_all
  next
    case (Inr db1)
    then have f1: "txn_depth db1 = txn_depth db" "txn_immediate db1 = txn_immediate db"
      by (auto simp: end_rollback_to_def split: if_splits prod.splits sum.splits
          dest: exec_command_fields)
    obtain r2 db2 where rel: "exec_command E (release_sql (txn_depth db1)) db1 = (r2, db2)"
      by force
    then have f2: "txn_depth db2 = txn_depth db" "txn_immediate db2 = txn_immediate db"
      using f1 by (auto dest: exec_command_fields)
    show ?thesis
    proof (cases "\<exists>rc. r2 = Inr rc \<and> ok rc")
      case True
      with res npos Inr rel
      have "end_outer E commit (db2\<lparr>txn_depth := txn_depth db2 - 1\<rparr>) = (r, db')"
        by (auto simp: endTransaction_def)
      with f2 show ?thesis by (rule outer)
    next
      case False
      with res npos Inr rel have "r = r2" "db' = db2"
        by (auto simp: endTransaction_def split: sum.splits)
      with False f2 show ?thesis by (intro early) (auto simp: ok_def)
    qed
  qed
qed

lemma endTransaction_depth:
  assumes "0 < sint (txn_depth db)" and "endTransaction E commit db = (r, db')"
  shows "if r = Inr status_ok then txn_depth db' = txn_depth db - 1
         else if returned r then txn_depth db' = txn_depth db
         else txn_depth db' = txn_depth db \<or> txn_depth db' = txn_depth db - 1"
  using assms
proof (cases rule: endTransaction_cases)
  case early
  then show ?thesis by simp
next
  case (outer db2)
  from end_outer_depth [OF outer(3)] outer(1) show ?thesis by simp
qed

lemma endTransaction_ok_issued:
  assumes "0 < sint (txn_depth db)"
    and "endTransaction E commit db = (Inr status_ok, db')"
  shows "issued db' = issued db
           @ (if commit then []
              else [''ROLLBACK TO SAVEPOINT sp_'' @ to_string (sint (txn_depth db))])
           @ [''RELEASE SAVEPOINT sp_'' @ to_string (sint (txn_depth db))]
           @ (if txn_depth db = 1 \<and> txn_immediate db
              then [if commit then ''COMMIT'' else ''ROLLBACK''] else [])"
proof -
  let ?d = "txn_depth db"
  have pos: "\<not> ?d \<le>s 0" using assms(1) by (rule positive_depth)
  from assms(2) pos obtain db1 db2 rc where
    rb: "end_rollback_to E commit db = Inr db1"
    and rel: "exec_command E (release_sql (txn_depth db1)) db1 = (Inr rc, db2)" "ok rc"
    and out: "end_outer E commit (db2\<lparr>txn_depth := txn_depth db2 - 1\<rparr>) = (Inr status_ok, db')"
    by (auto simp: endTransaction_def ok_def split: sum.splits prod.splits if_splits
        dest: end_rollback_to_early)
  have i1: "issued db1 = issued db @ (if commit then [] else [rollback_to_sql ?d])"
    and d1: "txn_depth db1 = ?d" and m1: "txn_immediate db1 = txn_immediate db"
    using rb
    by (auto simp: end_rollback_to_def split: if_splits prod.splits sum.splits
        dest: exec_command_issued_returned exec_command_fields)
  have i2: "issued db2 = issued db1 @ [release_sql ?d]"
    using rel(1) d1 by (auto dest: exec_command_issued_returned)
  have d2: "txn_depth db2 = ?d" and m2: "txn_immediate db2 = txn_immediate db"
    using rel(1) d1 m1 by (auto dest: exec_command_fields)
  from end_outer_ok [OF out] d2 m2
  have "issued db' = issued db2 @
          (if ?d = 1 \<and> txn_immediate db then [if commit then ''COMMIT'' else ''ROLLBACK''] else [])"
    by (simp add: word_dec_zero)
  with i1 i2 show ?thesis by (simp add: rollback_to_sql_eq release_sql_eq)
qed

section \<open>The depth along a sequence of calls\<close>

text \<open>
  An \<open>endTransaction\<close> call whose savepoint statements succeed goes on from
  \<open>--txn_depth_\<close>; any other leaves the depth as it was and does not return \<open>status::ok\<close>.
\<close>

lemma endTransaction_released:
  assumes "0 < sint (txn_depth db)" and "released E commit db"
  shows "\<exists>db2. txn_depth db2 = txn_depth db \<and>
           endTransaction E commit db
             = end_outer E commit (db2\<lparr>txn_depth := txn_depth db2 - 1\<rparr>)"
proof -
  have npos: "\<not> txn_depth db \<le>s 0" using assms(1) by (rule positive_depth)
  from assms(2) obtain db1 rc db2 where
    rb: "end_rollback_to E commit db = Inr db1"
    and rel: "exec_command E (release_sql (txn_depth db1)) db1 = (Inr rc, db2)" "ok rc"
    by (auto simp: released_def split: sum.splits prod.splits)
  from rb have "txn_depth db1 = txn_depth db"
    by (auto simp: end_rollback_to_def split: if_splits prod.splits sum.splits
        dest: exec_command_fields)
  with rel(1) have "txn_depth db2 = txn_depth db" by (auto dest: exec_command_fields)
  moreover have "endTransaction E commit db
      = end_outer E commit (db2\<lparr>txn_depth := txn_depth db2 - 1\<rparr>)"
    using npos rb rel by (simp add: endTransaction_def)
  ultimately show ?thesis by blast
qed

lemma endTransaction_not_released:
  assumes "0 < sint (txn_depth db)" and "\<not> released E commit db"
    and "endTransaction E commit db = (r, db')"
  shows "txn_depth db' = txn_depth db \<and> r \<noteq> Inr status_ok"
proof -
  have npos: "\<not> txn_depth db \<le>s 0" using assms(1) by (rule positive_depth)
  show ?thesis
  proof (cases "end_rollback_to E commit db")
    case (Inl e)
    with assms(3) npos have e: "end_rollback_to E commit db = Inl (r, db')"
      by (simp add: endTransaction_def)
    then have "txn_depth db' = txn_depth db"
      by (auto simp: end_rollback_to_def split: if_splits prod.splits sum.splits
          dest: exec_command_fields)
    with end_rollback_to_early [OF e] show ?thesis by simp
  next
    case (Inr db1)
    then have d1: "txn_depth db1 = txn_depth db"
      by (auto simp: end_rollback_to_def split: if_splits prod.splits sum.splits
          dest: exec_command_fields)
    obtain r2 db2 where rel: "exec_command E (release_sql (txn_depth db1)) db1 = (r2, db2)"
      by force
    then have d2: "txn_depth db2 = txn_depth db" using d1 by (auto dest: exec_command_fields)
    from assms(2) Inr rel have "\<not> (\<exists>rc. r2 = Inr rc \<and> ok rc)"
      by (auto simp: released_def)
    with assms(3) npos Inr rel have "r = r2" "db' = db2" "r2 \<noteq> Inr status_ok"
      by (auto simp: endTransaction_def ok_def split: sum.splits)
    with d2 show ?thesis by simp
  qed
qed

text \<open>
  One call, and then a whole sequence, as long as the depth stays within the range of
  \<open>int\<close>: the depth is never negative, and it is the depth at the start, plus the begins
  that returned \<open>status::ok\<close>, minus the ends that returned \<open>status::ok\<close>, minus the ends
  that raised after their \<open>RELEASE\<close> had succeeded.
\<close>

lemma do_call_depth:
  assumes nonneg: "0 \<le> sint (txn_depth db)" and room: "sint (txn_depth db) < 2 ^ 31 - 1"
    and res: "do_call E c db = (r, db')"
  shows "0 \<le> sint (txn_depth db') \<and> sint (txn_depth db') \<le> sint (txn_depth db) + 1 \<and>
         sint (txn_depth db')
           = sint (txn_depth db)
             + (if is_begin c \<and> r = Inr status_ok then 1 else 0)
             - (if \<not> is_begin c \<and> r = Inr status_ok then 1 else 0)
             - (if raises_late E c db then 1 else 0)"
proof (cases c)
  case (begin_call immediate)
  with res have "beginTransaction E immediate db = (r, db')" by simp
  from beginTransaction_depth [OF this] nonneg room begin_call show ?thesis
    by (auto simp: sint_inc)
next
  case (end_call commit)
  with res have e: "endTransaction E commit db = (r, db')" by simp
  show ?thesis
  proof (cases "0 < sint (txn_depth db)")
    case False
    then have "txn_depth db \<le>s 0" by (simp add: word_sle_eq)
    with e have "db' = db" "r \<noteq> Inr status_ok" by (auto simp: endTransaction_def)
    with nonneg False end_call show ?thesis by simp
  next
    case pos: True
    show ?thesis
    proof (cases "released E commit db")
      case False
      from endTransaction_not_released [OF pos False e] nonneg end_call False
      show ?thesis by simp
    next
      case True
      from endTransaction_released [OF pos True] e obtain db2 where
        d2: "txn_depth db2 = txn_depth db"
        and out: "end_outer E commit (db2\<lparr>txn_depth := txn_depth db2 - 1\<rparr>) = (r, db')"
        by auto
      from end_outer_depth [OF out] d2
      have "txn_depth db' = (if returned r \<and> r \<noteq> Inr status_ok then txn_depth db
                             else txn_depth db - 1)"
        by simp
      moreover have "fst (endTransaction E commit db) = r" using e by simp
      ultimately show ?thesis using pos True end_call sint_dec [OF pos]
        by (auto simp: returned_def split: sum.splits)
    qed
  qed
qed

lemma transaction_depth_accounting:
  assumes "0 \<le> sint (txn_depth db)"
    and "sint (txn_depth db) + int (length cs) < 2 ^ 31"
    and "run_calls E cs db = (rs, db')"
  shows "0 \<le> sint (txn_depth db') \<and>
         sint (txn_depth db')
           = sint (txn_depth db) + int (ok_begins cs rs) - int (ok_ends cs rs)
             - int (late_raises E cs db)"
  using assms
proof (induction cs arbitrary: db rs)
  case Nil
  then show ?case by (simp add: ok_begins_def ok_ends_def)
next
  case (Cons c cs)
  obtain r db1 where step: "do_call E c db = (r, db1)" by force
  obtain rs1 where rest: "run_calls E cs db1 = (rs1, db')" and rs: "rs = r # rs1"
    using Cons.prems(3) step by (auto split: prod.splits)
  have room: "sint (txn_depth db) < 2 ^ 31 - 1" using Cons.prems(2) by simp
  note d = do_call_depth [OF Cons.prems(1) room step]
  have "sint (txn_depth db1) + int (length cs) < 2 ^ 31" using d Cons.prems(2) by simp
  with Cons.IH [OF _ _ rest] d
  have ih: "0 \<le> sint (txn_depth db')"
    "sint (txn_depth db')
       = sint (txn_depth db1) + int (ok_begins cs rs1) - int (ok_ends cs rs1)
         - int (late_raises E cs db1)"
    by simp_all
  with d step show ?case
    by (simp add: rs ok_begins_def ok_ends_def)
qed

section \<open>What using a connection keeps\<close>

text \<open>
  Compiling, binding, stepping, resetting and the transaction calls leave the handle
  open and every cached statement in its cache.
\<close>

lemma cached_in_update: "cached_in sql (cache_update s f cache) = cached_in sql cache"
  by (auto simp: cached_in_def cache_update_def split: option.splits)

lemma compile_new:
  assumes "compile E db cache sql = Inr cache'"
  shows "db_ptr db \<noteq> nullptr \<and> cache' sql = Some cleared \<and> (\<forall>s. cache s \<noteq> None \<longrightarrow> cache' s \<noteq> None)"
  using assms
  by (auto simp: compile_def cleared_def Let_def split: if_splits option.splits)

lemma command_keeps:
  assumes "command E s db = (r, db')"
  shows "db_ptr db' = db_ptr db \<and> queries db' = queries db \<and>
         (cached_in sql (commands db) \<longrightarrow> cached_in sql (commands db'))"
  using assms
  by (auto simp: command_def Let_def cached_in_def
      split: sum.splits option.splits dest!: compile_new)

lemma query_keeps:
  assumes "query E s db = (r, db')"
  shows "db_ptr db' = db_ptr db \<and> commands db' = commands db \<and>
         (cached_in sql (queries db) \<longrightarrow> cached_in sql (queries db'))"
  using assms
  by (auto simp: query_def Let_def cached_in_def
      split: sum.splits option.splits dest!: compile_new)

lemma exec_command_keeps:
  assumes "exec_command E s db = (r, db')"
  shows "db_ptr db' = db_ptr db \<and> queries db' = queries db \<and>
         (cached_in sql (commands db) \<longrightarrow> cached_in sql (commands db'))"
  using assms
  by (auto simp: exec_command_def split: prod.splits sum.splits dest!: command_keeps [where sql = sql])

lemma keeps_refl [simp]: "keeps sql db db"
  by (simp add: keeps_def)

lemma keeps_trans: "keeps sql db db1 \<Longrightarrow> keeps sql db1 db2 \<Longrightarrow> keeps sql db db2"
  by (simp add: keeps_def)

lemma keeps_txn_fields [simp]:
  "keeps sql db (db'\<lparr>txn_depth := d\<rparr>) = keeps sql db db'"
  "keeps sql db (db'\<lparr>txn_immediate := i\<rparr>) = keeps sql db db'"
  "keeps sql (db\<lparr>txn_depth := d\<rparr>) db' = keeps sql db db'"
  "keeps sql (db\<lparr>txn_immediate := i\<rparr>) db' = keeps sql db db'"
  by (simp_all add: keeps_def)

lemma exec_command_keeps2: "exec_command E s db = (r, db') \<Longrightarrow> keeps sql db db'"
  using exec_command_keeps [of E s db r db' sql] by (simp add: keeps_def)

lemma exec_then:
  "keeps sql db db1 \<Longrightarrow> exec_command E s db1 = (r, db') \<Longrightarrow> keeps sql db db'"
  by (blast intro: keeps_trans exec_command_keeps2)

lemma begin_outer_keeps:
  "begin_outer E immediate db = Inl (r, db') \<Longrightarrow> keeps sql db db'"
  "begin_outer E immediate db = Inr db1 \<Longrightarrow> keeps sql db db1"
  by (auto simp: begin_outer_def split: if_splits sum.splits bool.splits prod.splits
      dest: exec_command_keeps2)

lemma beginTransaction_keeps:
  assumes "beginTransaction E immediate db = (r, db')"
  shows "keeps sql db db'"
proof (cases "begin_outer E immediate db")
  case (Inl e)
  with assms have "begin_outer E immediate db = Inl (r, db')" by (simp add: beginTransaction_def)
  then show ?thesis by (rule begin_outer_keeps)
next
  case (Inr db1)
  note k1 = begin_outer_keeps(2) [OF Inr, of sql]
  obtain r2 db2 where sp: "exec_command E (savepoint_sql (txn_depth db1)) db1 = (r2, db2)"
    by force
  note k2 = exec_then [OF k1 sp]
  obtain r3 db3 where rb: "exec_command E ''ROLLBACK'' db2 = (r3, db3)" by force
  note k3 = exec_then [OF k2 rb]
  show ?thesis using assms Inr sp rb k2 k3
    by (auto simp: beginTransaction_def split: sum.splits if_splits)
qed

lemma end_rollback_to_keeps:
  "end_rollback_to E commit db = Inl (r, db') \<Longrightarrow> keeps sql db db'"
  "end_rollback_to E commit db = Inr db1 \<Longrightarrow> keeps sql db db1"
  by (auto simp: end_rollback_to_def split: if_splits sum.splits prod.splits
      dest: exec_command_keeps2)

lemma end_outer_keeps: "end_outer E commit db = (r, db') \<Longrightarrow> keeps sql db db'"
  by (auto simp: end_outer_def split: if_splits sum.splits bool.splits prod.splits
      dest: exec_command_keeps2)

lemma endTransaction_keeps:
  assumes "endTransaction E commit db = (r, db')"
  shows "keeps sql db db'"
proof (cases "txn_depth db \<le>s 0")
  case True
  with assms show ?thesis by (simp add: endTransaction_def)
next
  case False
  show ?thesis
  proof (cases "end_rollback_to E commit db")
    case (Inl e)
    with assms False have "end_rollback_to E commit db = Inl (r, db')"
      by (simp add: endTransaction_def)
    then show ?thesis by (rule end_rollback_to_keeps)
  next
    case (Inr db1)
    note k1 = end_rollback_to_keeps(2) [OF Inr, of sql]
    obtain r2 db2 where rel: "exec_command E (release_sql (txn_depth db1)) db1 = (r2, db2)"
      by force
    note k2 = exec_then [OF k1 rel]
    obtain r3 db3 where out:
      "end_outer E commit (db2\<lparr>txn_depth := txn_depth db2 - 1\<rparr>) = (r3, db3)" by force
    from end_outer_keeps [OF out, of sql] k2 have k3: "keeps sql db db3"
      by (auto intro: keeps_trans)
    show ?thesis using assms False Inr rel out k2 k3
      by (auto simp: endTransaction_def split: sum.splits if_splits)
  qed
qed

lemma stmt_update_keeps: "keeps sql db (stmt_update ref f db)"
  by (cases ref) (simp_all add: keeps_def stmt_update_def cached_in_update)

lemma perform_keeps: "keeps sql db (perform E a db)"
proof (cases a)
  case (get_command s)
  obtain r db' where c: "command E s db = (r, db')" by force
  with command_keeps [OF c, of sql] get_command show ?thesis by (simp add: keeps_def)
next
  case (get_query s)
  obtain r db' where c: "query E s db = (r, db')" by force
  with query_keeps [OF c, of sql] get_query show ?thesis by (simp add: keeps_def)
next
  case (transaction_call c)
  obtain r db' where d: "do_call E c db = (r, db')" by force
  then have "keeps sql db db'"
    by (cases c) (auto dest: beginTransaction_keeps endTransaction_keeps)
  with d transaction_call show ?thesis by simp
qed (simp_all add: stmt_update_keeps)

lemma perform_all_keeps: "keeps sql db (perform_all E as db)"
proof (induction as arbitrary: db)
  case Nil
  show ?case by simp
next
  case (Cons a as)
  from keeps_trans [OF perform_keeps Cons.IH] show ?case by simp
qed

text \<open>
  A first compilation on an open connection succeeds when the engine accepts the SQL; a
  later one finds the cached statement and hands it out cleared.
\<close>

lemma command_first:
  assumes "db_ptr db \<noteq> nullptr" and "ok (prepare E sql (conn db))"
  shows "fst (command E sql db) = Inr (command_ref sql) \<and>
         db_ptr (snd (command E sql db)) \<noteq> nullptr \<and>
         cached_in sql (commands (snd (command E sql db))) \<and>
         stmt_lookup (snd (command E sql db)) (command_ref sql)
           = Some \<lparr>bindings = Map.empty, stepping = False\<rparr>"
  using assms
  by (auto simp: command_def Let_def compile_def cached_in_def stmt_lookup_def
      split: option.splits)

lemma query_first:
  assumes "db_ptr db \<noteq> nullptr" and "ok (prepare E sql (conn db))"
  shows "fst (query E sql db) = Inr (query_ref sql) \<and>
         db_ptr (snd (query E sql db)) \<noteq> nullptr \<and>
         cached_in sql (queries (snd (query E sql db))) \<and>
         stmt_lookup (snd (query E sql db)) (query_ref sql)
           = Some \<lparr>bindings = Map.empty, stepping = False\<rparr>"
  using assms
  by (auto simp: query_def Let_def compile_def cached_in_def stmt_lookup_def
      split: option.splits)

lemma command_cached:
  assumes "db_ptr db \<noteq> nullptr" and "cached_in sql (commands db)"
  shows "fst (command E sql db) = Inr (command_ref sql) \<and>
         stmt_lookup (snd (command E sql db)) (command_ref sql)
           = Some \<lparr>bindings = Map.empty, stepping = False\<rparr>"
  using assms
  by (auto simp: command_def Let_def compile_def cached_in_def stmt_lookup_def
      split: option.splits)

lemma query_cached:
  assumes "db_ptr db \<noteq> nullptr" and "cached_in sql (queries db)"
  shows "fst (query E sql db) = Inr (query_ref sql) \<and>
         stmt_lookup (snd (query E sql db)) (query_ref sql)
           = Some \<lparr>bindings = Map.empty, stepping = False\<rparr>"
  using assms
  by (auto simp: query_def Let_def compile_def cached_in_def stmt_lookup_def
      split: option.splits)

lemmas cache_eval = command_def query_def compile_def stmt_lookup_def stmt_update_def
  cache_update_def scripted_def connected_def ok_def status_defs

section \<open>A level of depth lost\<close>

text \<open>
  C1. The depth after a sequence of calls is meant to be the number of begins that
  succeeded minus the number of ends that succeeded. On a connection with exceptions
  enabled (the default), run \<open>beginTransaction(true)\<close>, \<open>beginTransaction(false)\<close>,
  \<open>endTransaction(true)\<close>, \<open>endTransaction(true)\<close>, the engine refusing the closing
  \<open>COMMIT\<close> with \<open>busy\<close>, which the statement raises: two begins and one end have
  returned \<open>status::ok\<close>, the last end has failed with \<open>database_error\<close>, and the depth is
  0, not 1, while the engine is still inside the transaction. With exceptions disabled
  the same refusal is returned as a status and the depth is 1.
\<close>

theorem transaction_depth_lost:
  "(let E = scripted [Inr status_ok, Inr status_ok, Inr status_ok, Inr status_ok, Inr status_ok,
                      Inl (database_error ''database is locked'' status_busy)]
              [True, False, False, False, False, False, False];
        cs = [begin_call True, begin_call False, end_call True, end_call True];
        r = run_calls E cs (connected True 0)
    in fst r = [Inr status_ok, Inr status_ok, Inr status_ok,
                Inl (database_error ''database is locked'' status_busy)] \<and>
       ok_begins cs (fst r) = 2 \<and> ok_ends cs (fst r) = 1 \<and>
       sint (txn_depth (snd r)) = 0 \<and>
       in_transaction E (snd r) = Inr True) \<and>
   (let E = scripted [Inr status_ok, Inr status_ok, Inr status_ok, Inr status_ok, Inr status_ok,
                      Inr status_busy]
              [True, False, False, False, False, False, False];
        cs = [begin_call True, begin_call False, end_call True, end_call True];
        r = run_calls E cs (connected False 0)
    in fst r = [Inr status_ok, Inr status_ok, Inr status_ok, Inr status_busy] \<and>
       ok_begins cs (fst r) = 2 \<and> ok_ends cs (fst r) = 1 \<and>
       sint (txn_depth (snd r)) = 1)"
  by (simp add: Let_def run_eval)

section \<open>Ending a transaction that was never begun\<close>

text \<open>
  C2. On a connection whose transaction depth is 0, \<open>endTransaction\<close> (commit or abort)
  always fails with the logic error "transaction underflow": it is thrown, whatever the
  exception setting of the connection, nothing is sent to the engine, and the
  connection, its depth included, is left exactly as it was.
\<close>

theorem endTransaction_underflow:
  "txn_depth db = 0 \<Longrightarrow>
     endTransaction E commit db = (Inl (logic_error ''transaction underflow''), db)"
  by (simp add: endTransaction_def)

theorem endTransaction_underflow_witness:
  "txn_depth (connected False (0::nat)) = 0 \<and>
   endTransaction (scripted [] []) True (connected False 0)
     = (Inl (logic_error ''transaction underflow''), connected False 0)"
  using endTransaction_underflow [of "connected False (0::nat)" "scripted [] []" True]
  by (simp add: connected_def)

section \<open>The statements of a successful \<open>endTransaction\<close>\<close>

text \<open>
  C3. An \<open>endTransaction\<close> call at depth \<open>d \<ge> 1\<close> that returns \<open>status::ok\<close> has sent to
  the engine, in this order: when \<open>commit\<close> is false, \<open>ROLLBACK TO SAVEPOINT sp_<d>\<close>;
  then, in both cases, \<open>RELEASE SAVEPOINT sp_<d>\<close>; when \<open>commit\<close> is true the release is
  the only savepoint statement. Nothing else is sent, except the closing \<open>COMMIT\<close> or
  \<open>ROLLBACK\<close> of an immediate transaction when the depth was 1 (claim C5).
\<close>

theorem endTransaction_statements:
  assumes "0 < sint (txn_depth db)"
    and "endTransaction E commit db = (Inr status_ok, db')"
  shows "issued db' = issued db
           @ (if commit then []
              else [''ROLLBACK TO SAVEPOINT sp_'' @ to_string (sint (txn_depth db))])
           @ [''RELEASE SAVEPOINT sp_'' @ to_string (sint (txn_depth db))]
           @ (if txn_depth db = 1 \<and> txn_immediate db
              then [if commit then ''COMMIT'' else ''ROLLBACK''] else [])"
  using assms by (rule endTransaction_ok_issued)

theorem endTransaction_statements_witness:
  "0 < sint (txn_depth ((connected False (0::nat))\<lparr>txn_depth := 1, txn_immediate := True\<rparr>)) \<and>
   fst (endTransaction (scripted [] [True, True, False]) False
          ((connected False 0)\<lparr>txn_depth := 1, txn_immediate := True\<rparr>)) = Inr status_ok \<and>
   issued (snd (endTransaction (scripted [] [True, True, False]) False
          ((connected False 0)\<lparr>txn_depth := 1, txn_immediate := True\<rparr>)))
     = [''ROLLBACK TO SAVEPOINT sp_1'', ''RELEASE SAVEPOINT sp_1'', ''ROLLBACK'']"
proof -
  let ?E = "scripted [] [True, True, False]"
  let ?D = "(connected False (0::nat))\<lparr>txn_depth := 1, txn_immediate := True\<rparr>"
  let ?D' = "snd (endTransaction ?E False ?D)"
  have pos: "0 < sint (txn_depth ?D)" by (simp add: connected_def)
  have res: "endTransaction ?E False ?D = (Inr status_ok, ?D')"
    by (simp add: prod_eq_iff txn_eval)
  from endTransaction_statements [OF pos res]
  have "issued ?D' = [''ROLLBACK TO SAVEPOINT sp_1'', ''RELEASE SAVEPOINT sp_1'', ''ROLLBACK'']"
    by (simp add: connected_def to_string_def digits_eval)
  moreover from res have "fst (endTransaction ?E False ?D) = Inr status_ok" by (metis fst_conv)
  ultimately show ?thesis using pos by simp
qed

section \<open>A savepoint that fails by raising\<close>

text \<open>
  C4. \<open>beginTransaction(true)\<close> at depth 0 on a connection with exceptions enabled (the
  default), the engine accepting \<open>BEGIN IMMEDIATE\<close> and failing \<open>SAVEPOINT sp_1\<close> with an
  I/O error, which the statement raises: the call ends with that exception after
  \<open>BEGIN IMMEDIATE\<close> and \<open>SAVEPOINT sp_1\<close> alone. No \<open>ROLLBACK\<close> is sent: the depth is 0
  and the engine is left inside the transaction that \<open>BEGIN IMMEDIATE\<close> opened, so that
  the next \<open>beginTransaction(true)\<close> throws "unexpectedly already in a transaction".
  With exceptions disabled the same failure is returned as a status, after \<open>ROLLBACK\<close>
  has been sent, and the engine is left outside any transaction.
\<close>

theorem beginTransaction_savepoint_raises:
  "(let E = scripted [Inr status_ok, Inl (database_error ''disk I/O error'' 10)]
              [True, False, False];
        r = beginTransaction E True (connected True 0)
    in fst r = Inl (database_error ''disk I/O error'' 10) \<and>
       issued (snd r) = [''BEGIN IMMEDIATE'', ''SAVEPOINT sp_1''] \<and>
       txn_depth (snd r) = 0 \<and>
       in_transaction E (snd r) = Inr True \<and>
       fst (beginTransaction E True (snd r))
         = Inl (logic_error ''unexpectedly already in a transaction'')) \<and>
   (let E = scripted [Inr status_ok, Inr 10] [True, False, False, True];
        r = beginTransaction E True (connected False 0)
    in fst r = Inr 10 \<and>
       issued (snd r) = [''BEGIN IMMEDIATE'', ''SAVEPOINT sp_1'', ''ROLLBACK''] \<and>
       txn_depth (snd r) = 0 \<and>
       in_transaction E (snd r) = Inr False)"
  by (simp add: Let_def txn_eval)

section \<open>A closing statement that fails by raising\<close>

text \<open>
  C5. \<open>endTransaction(true)\<close> at depth 1 of an immediate transaction, on a connection
  with exceptions enabled (the default), the engine refusing the closing \<open>COMMIT\<close> with
  \<open>busy\<close>, which the statement raises: the call ends with that exception after
  \<open>RELEASE SAVEPOINT sp_1\<close> and \<open>COMMIT\<close>, and the depth is 0, not back at 1, although
  the engine is still inside the transaction; a further \<open>endTransaction\<close>, to roll it
  back, throws "transaction underflow". With exceptions disabled the same refusal is
  returned as a status and the depth is back at 1.
\<close>

theorem endTransaction_commit_raises:
  "(let E = scripted [Inr status_ok, Inr status_ok, Inr status_ok,
                      Inl (database_error ''database is locked'' status_busy)]
              [True, False, False, False, False];
        b = beginTransaction E True (connected True 0);
        r = endTransaction E True (snd b)
    in fst b = Inr status_ok \<and> txn_depth (snd b) = 1 \<and> txn_immediate (snd b) \<and>
       fst r = Inl (database_error ''database is locked'' status_busy) \<and>
       issued (snd r)
         = [''BEGIN IMMEDIATE'', ''SAVEPOINT sp_1'', ''RELEASE SAVEPOINT sp_1'', ''COMMIT''] \<and>
       txn_depth (snd r) = 0 \<and>
       in_transaction E (snd r) = Inr True \<and>
       fst (endTransaction E False (snd r)) = Inl (logic_error ''transaction underflow'')) \<and>
   (let E = scripted [Inr status_ok, Inr status_ok, Inr status_ok, Inr status_busy]
              [True, False, False, False, False];
        b = beginTransaction E True (connected False 0);
        r = endTransaction E True (snd b)
    in fst b = Inr status_ok \<and> txn_depth (snd b) = 1 \<and>
       fst r = Inr status_busy \<and>
       issued (snd r)
         = [''BEGIN IMMEDIATE'', ''SAVEPOINT sp_1'', ''RELEASE SAVEPOINT sp_1'', ''COMMIT''] \<and>
       txn_depth (snd r) = 1)"
  by (simp add: Let_def txn_eval)

section \<open>Closing a connection\<close>

text \<open>
  Every \<open>close\<close> leaves both statement caches empty. With another owner of the handle
  it ends in \<open>check(status::busy)\<close>, the message read through \<open>weak_db_\<close>, and keeps the
  handle; otherwise it returns \<open>status::ok\<close>, drops the handle and runs its deleter. On a
  connection opened by \<open>database()\<close> and \<open>connect\<close>, \<open>weak_db_\<close> was never set and the
  message is empty.
\<close>

lemma close_outcome:
  assumes "close E immediately db = (r, db')"
  shows "commands db' = None \<and> queries db' = None \<and>
         (if 1 < use_count (db_ptr db)
          then r = db_check E db status_busy \<and> db_ptr db' = db_ptr db \<and> conn db' = conn db
          else r = Inr status_ok \<and> db_ptr db' = nullptr \<and>
               conn db' = run_deleter E (db_ptr db) (conn db))"
proof (cases "db_ptr db")
  case nullptr
  with assms show ?thesis by (auto simp: close_def Let_def run_deleter_def)
next
  case (shared d others)
  with assms show ?thesis
    by (auto simp: close_def Let_def db_check_def weak_lock_def
        split: if_splits weak_ptr.splits)
qed

lemma db_check_unset:
  assumes "weak_db db = weak_expired"
  shows "db_check E db rc = check (exceptions db) [] rc"
    and "check_get_db db = Inl (logic_error ''database is no longer open'')"
  using assms by (simp_all add: db_check_def check_get_db_def weak_lock_def)

text \<open>
  C6. \<open>close()\<close> on a connection opened by the constructor that is the only owner of
  its handle, while the engine still has something live on it (a query iterator, a blob
  stream, a backup): both caches are reset, and the call returns \<open>status::ok\<close>, with
  exceptions enabled or not and whatever \<open>immediately\<close> is. The handle is dropped, its
  deleter finds \<open>sqlite3_close\<close> busy and passes the connection to \<open>sqlite3_close_v2\<close>,
  which keeps it as a zombie: no \<open>busy\<close> status reaches the caller and the connection
  is not kept. Only another owner of the shared handle makes \<open>close\<close> return \<open>busy\<close> and
  keep the connection.
\<close>

theorem close_forces_busy_handle:
  "close closing_engine True (connected False (handle_open True))
     = (Inr status_ok,
        (connected False handle_zombie)\<lparr>db_ptr := nullptr, weak_db := weak_expired\<rparr>) \<and>
   close closing_engine True (connected True (handle_open True))
     = (Inr status_ok,
        (connected True handle_zombie)\<lparr>db_ptr := nullptr, weak_db := weak_expired\<rparr>) \<and>
   close closing_engine False (connected False (handle_open True))
     = close closing_engine True (connected False (handle_open True)) \<and>
   close closing_engine True ((connected False (handle_open True))\<lparr>db_ptr := shared close_db 1\<rparr>)
     = (Inr status_busy, (connected False (handle_open True))\<lparr>db_ptr := shared close_db 1\<rparr>)"
  by (simp add: close_def Let_def connected_def closing_engine_def run_deleter_def
      db_check_def weak_lock_def check_def raise_def ok_def status_defs)

section \<open>Compiling the same SQL text twice\<close>

text \<open>
  C7. On an open connection, for every SQL text that the engine accepts, and both for
  \<open>database::command\<close> and for \<open>database::query\<close>: the first compilation succeeds and
  returns a statement without bindings; and after any use of the connection and of its
  statements short of closing it (binding, stepping, resetting, clearing, compiling,
  transaction calls), a second compilation of the same text succeeds and returns the
  cached statement with its bindings cleared and its cursor reset, so that nothing
  bound through the first is left in the second.
\<close>

theorem second_compile_is_cleared:
  assumes "db_ptr db \<noteq> nullptr" and "ok (prepare E sql (conn db))"
  shows "fst (command E sql db) = Inr (command_ref sql) \<and>
         stmt_lookup (snd (command E sql db)) (command_ref sql)
           = Some \<lparr>bindings = Map.empty, stepping = False\<rparr> \<and>
         fst (command E sql (perform_all E acts (snd (command E sql db))))
           = Inr (command_ref sql) \<and>
         stmt_lookup (snd (command E sql (perform_all E acts (snd (command E sql db)))))
             (command_ref sql)
           = Some \<lparr>bindings = Map.empty, stepping = False\<rparr> \<and>
         fst (query E sql db) = Inr (query_ref sql) \<and>
         stmt_lookup (snd (query E sql db)) (query_ref sql)
           = Some \<lparr>bindings = Map.empty, stepping = False\<rparr> \<and>
         fst (query E sql (perform_all E acts (snd (query E sql db))))
           = Inr (query_ref sql) \<and>
         stmt_lookup (snd (query E sql (perform_all E acts (snd (query E sql db)))))
             (query_ref sql)
           = Some \<lparr>bindings = Map.empty, stepping = False\<rparr>"
proof -
  note c = command_first [OF assms]
  note q = query_first [OF assms]
  from c perform_all_keeps [of sql "snd (command E sql db)" E acts]
  have "db_ptr (perform_all E acts (snd (command E sql db))) \<noteq> nullptr"
    and "cached_in sql (commands (perform_all E acts (snd (command E sql db))))"
    by (simp_all add: keeps_def)
  note c2 = command_cached [OF this]
  from q perform_all_keeps [of sql "snd (query E sql db)" E acts]
  have "db_ptr (perform_all E acts (snd (query E sql db))) \<noteq> nullptr"
    and "cached_in sql (queries (perform_all E acts (snd (query E sql db))))"
    by (simp_all add: keeps_def)
  note q2 = query_cached [OF this]
  from c c2 q q2 show ?thesis by blast
qed

theorem second_compile_is_cleared_witness:
  "(let E = scripted [] [];
        S = ''SELECT name FROM contacts WHERE id = ?'';
        D = connected False (0::nat);
        acts = [get_command S, get_query S,
                bind_param (command_ref S) 1 ''7'', step_stmt (command_ref S),
                bind_param (query_ref S) 1 ''8'', step_stmt (query_ref S),
                transaction_call (begin_call False)]
    in db_ptr D \<noteq> nullptr \<and> ok (prepare E S (conn D)) \<and>
       stmt_lookup (perform_all E acts (snd (command E S D))) (command_ref S)
         = Some \<lparr>bindings = [1 \<mapsto> ''7''], stepping = True\<rparr> \<and>
       fst (command E S (perform_all E acts (snd (command E S D)))) = Inr (command_ref S) \<and>
       stmt_lookup (snd (command E S (perform_all E acts (snd (command E S D)))))
           (command_ref S)
         = Some \<lparr>bindings = Map.empty, stepping = False\<rparr> \<and>
       stmt_lookup (perform_all E acts (snd (query E S D))) (query_ref S)
         = Some \<lparr>bindings = [1 \<mapsto> ''8''], stepping = True\<rparr> \<and>
       fst (query E S (perform_all E acts (snd (query E S D)))) = Inr (query_ref S) \<and>
       stmt_lookup (snd (query E S (perform_all E acts (snd (query E S D))))) (query_ref S)
         = Some \<lparr>bindings = Map.empty, stepping = False\<rparr>)"
  using second_compile_is_cleared
    [of "connected False (0::nat)" "scripted [] []" "''SELECT name FROM contacts WHERE id = ?''"
        "[get_command ''SELECT name FROM contacts WHERE id = ?'',
          get_query ''SELECT name FROM contacts WHERE id = ?'',
          bind_param (command_ref ''SELECT name FROM contacts WHERE id = ?'') 1 ''7'',
          step_stmt (command_ref ''SELECT name FROM contacts WHERE id = ?''),
          bind_param (query_ref ''SELECT name FROM contacts WHERE id = ?'') 1 ''8'',
          step_stmt (query_ref ''SELECT name FROM contacts WHERE id = ?''),
          transaction_call (begin_call False)]"]
  by (simp add: Let_def cache_eval txn_eval)

text \<open>
  The two statements are nevertheless one cached entry. After the second compilation, a
  parameter bound, or a step taken, through the first is seen through the second.
\<close>

theorem compiled_statement_is_shared:
  "(let E = scripted [] [];
        S = ''INSERT INTO contacts (name) VALUES (?)'';
        c1 = command E S (connected False (0::nat));
        c2 = command E S (snd c1);
        db3 = perform E (bind_param (command_ref S) 1 ''Alice'') (snd c2)
    in fst c1 = Inr (command_ref S) \<and> fst c2 = Inr (command_ref S) \<and>
       stmt_lookup (snd c2) (command_ref S)
         = Some \<lparr>bindings = Map.empty, stepping = False\<rparr> \<and>
       stmt_lookup db3 (command_ref S)
         = Some \<lparr>bindings = [1 \<mapsto> ''Alice''], stepping = False\<rparr>) \<and>
   (let E = scripted [] [];
        S = ''SELECT name FROM contacts WHERE id = ?'';
        q1 = query E S (connected False (0::nat));
        q2 = query E S (snd q1);
        db3 = perform E (step_stmt (query_ref S))
                (perform E (bind_param (query_ref S) 1 ''7'') (snd q2))
    in fst q1 = Inr (query_ref S) \<and> fst q2 = Inr (query_ref S) \<and>
       stmt_lookup (snd q2) (query_ref S)
         = Some \<lparr>bindings = Map.empty, stepping = False\<rparr> \<and>
       stmt_lookup db3 (query_ref S)
         = Some \<lparr>bindings = [1 \<mapsto> ''7''], stepping = True\<rparr>)"
  by (simp add: Let_def cache_eval)

section \<open>An illegal argument that is returned\<close>

text \<open>
  C8. With exceptions disabled, \<open>check\<close> returns \<open>status::range\<close> (an argument out of
  range, such as the index of a parameter that the statement does not have) to the
  caller as a status: it is not raised, although \<open>raise\<close> maps \<open>range\<close>, like \<open>misuse\<close>,
  to \<open>std::invalid_argument\<close>, and \<open>check\<close> raises it when exceptions are enabled.
  \<open>misuse\<close> is raised in both settings.
\<close>

theorem range_returned_when_disabled:
  "check False msg status_range = Inr status_range \<and>
   raise status_range msg = invalid_argument msg \<and>
   check True msg status_range = Inl (invalid_argument msg) \<and>
   check False msg status_misuse = Inl (invalid_argument msg)"
  by (simp add: check_def raise_def ok_def status_defs)

section \<open>A failing savepoint statement leaves the depth alone\<close>

text \<open>
  C10. In an \<open>endTransaction\<close> call at depth \<open>d \<ge> 1\<close>: if the statement
  \<open>ROLLBACK TO SAVEPOINT sp_<d>\<close> (issued when \<open>commit\<close> is false) returns a non-ok
  status, or if that step was skipped or succeeded and \<open>RELEASE SAVEPOINT sp_<d>\<close>
  returns a non-ok status, then the call returns that status and the depth is still
  \<open>d\<close>: the decrement comes only after both statements have succeeded.
\<close>

theorem endTransaction_savepoint_error:
  assumes "0 < sint (txn_depth db)" and "\<not> ok rc"
    and "\<not> commit \<and>
           exec_command E (''ROLLBACK TO SAVEPOINT sp_'' @ to_string (sint (txn_depth db))) db
             = (Inr rc, db')
         \<or> (commit \<and> db1 = db
              \<or> \<not> commit \<and>
                (\<exists>rc0. ok rc0 \<and>
                   exec_command E (''ROLLBACK TO SAVEPOINT sp_'' @ to_string (sint (txn_depth db))) db
                     = (Inr rc0, db1)))
           \<and> exec_command E (''RELEASE SAVEPOINT sp_'' @ to_string (sint (txn_depth db))) db1
               = (Inr rc, db')"
  shows "endTransaction E commit db = (Inr rc, db') \<and> txn_depth db' = txn_depth db"
proof -
  let ?d = "txn_depth db"
  have pos: "\<not> ?d \<le>s 0" using assms(1) by (rule positive_depth)
  from assms(3) consider
      (rollback) "\<not> commit" "exec_command E (rollback_to_sql ?d) db = (Inr rc, db')"
    | (release_commit) "commit" "exec_command E (release_sql ?d) db = (Inr rc, db')"
    | (release_abort) rc0 where "\<not> commit" "ok rc0"
        "exec_command E (rollback_to_sql ?d) db = (Inr rc0, db1)"
        "exec_command E (release_sql ?d) db1 = (Inr rc, db')"
    by (auto simp: rollback_to_sql_eq release_sql_eq)
  then show ?thesis
  proof cases
    case rollback
    from rollback(2) have "txn_depth db' = ?d" by (simp add: exec_command_fields)
    with rollback pos assms(2) show ?thesis
      by (simp add: endTransaction_def end_rollback_to_def)
  next
    case release_commit
    from release_commit(2) have "txn_depth db' = ?d" by (simp add: exec_command_fields)
    with release_commit pos assms(2) show ?thesis
      by (simp add: endTransaction_def end_rollback_to_def)
  next
    case release_abort
    from release_abort(3) have d1: "txn_depth db1 = ?d" by (simp add: exec_command_fields)
    from release_abort(4) have "txn_depth db' = txn_depth db1" by (simp add: exec_command_fields)
    with release_abort pos assms(2) d1 show ?thesis
      by (simp add: endTransaction_def end_rollback_to_def)
  qed
qed

theorem endTransaction_savepoint_error_witness:
  "0 < sint (txn_depth ((connected False (0::nat))\<lparr>txn_depth := 2\<rparr>)) \<and> \<not> ok 5 \<and>
   fst (endTransaction (scripted [Inr 0, Inr 5] []) False
          ((connected False 0)\<lparr>txn_depth := 2\<rparr>)) = Inr 5 \<and>
   txn_depth (snd (endTransaction (scripted [Inr 0, Inr 5] []) False
          ((connected False 0)\<lparr>txn_depth := 2\<rparr>))) = 2 \<and>
   issued (snd (endTransaction (scripted [Inr 0, Inr 5] []) False
          ((connected False 0)\<lparr>txn_depth := 2\<rparr>)))
     = [''ROLLBACK TO SAVEPOINT sp_2'', ''RELEASE SAVEPOINT sp_2'']"
proof -
  let ?E = "scripted [Inr 0, Inr 5] []"
  let ?D = "(connected False (0::nat))\<lparr>txn_depth := 2\<rparr>"
  let ?rb = "''ROLLBACK TO SAVEPOINT sp_'' @ to_string (sint (txn_depth ?D))"
  let ?rel = "''RELEASE SAVEPOINT sp_'' @ to_string (sint (txn_depth ?D))"
  let ?D1 = "snd (exec_command ?E ?rb ?D)"
  let ?D2 = "snd (exec_command ?E ?rel ?D1)"
  have pos: "0 < sint (txn_depth ?D)" by (simp add: connected_def)
  have bad: "\<not> ok 5" by (simp add: ok_def status_ok_def)
  have good: "ok 0" by (simp add: ok_def status_ok_def)
  have s1: "exec_command ?E ?rb ?D = (Inr 0, ?D1)"
    by (simp add: prod_eq_iff txn_eval)
  have s2: "exec_command ?E ?rel ?D1 = (Inr 5, ?D2)"
    by (simp add: prod_eq_iff txn_eval)
  have "endTransaction ?E False ?D = (Inr 5, ?D2) \<and> txn_depth ?D2 = txn_depth ?D"
    using endTransaction_savepoint_error [of ?D 5 False ?E ?D2 ?D1] pos bad good s1 s2 by blast
  moreover have "issued ?D2 = [''ROLLBACK TO SAVEPOINT sp_2'', ''RELEASE SAVEPOINT sp_2'']"
    by (simp add: txn_eval)
  moreover have "txn_depth ?D = 2" by (simp add: connected_def)
  ultimately show ?thesis using pos bad by simp
qed

section \<open>The counters of the pool\<close>

text \<open>
  C9. After every history of registry operations on a pool created with the maximum
  \<open>m\<close> (borrows of both kinds, releases, \<open>close_all\<close>, transaction scopes), that is at
  every observation point: \<open>borrowed_count() \<le> open_count() \<le> max_open = m\<close>, and
  \<open>open_count() - borrowed_count()\<close> is the number of idle slots in the slot table.
\<close>

lemma find_idle_Some:
  "find_idle w ss = Some i \<Longrightarrow> i < length ss \<and> \<not> slot_borrowed (ss ! i)"
  by (induction ss arbitrary: i) (auto split: if_splits)

lemma filter_nonempty: "i < length xs \<Longrightarrow> P (xs ! i) \<Longrightarrow> 0 < length (filter P xs)"
  by (metis filter_empty_conv length_greater_0_conv nth_mem)

lemma filter_update_length:
  "i < length xs \<Longrightarrow>
     length (filter P (xs[i := x]))
       = length (filter P xs) - (if P (xs ! i) then 1 else 0) + (if P x then 1 else 0)"
proof (induction xs arbitrary: i)
  case Nil
  then show ?case by simp
next
  case (Cons a xs)
  show ?case
  proof (cases i)
    case 0
    then show ?thesis by simp
  next
    case (Suc j)
    with Cons.prems have j: "j < length xs" by simp
    have "P (xs ! j) \<Longrightarrow> 0 < length (filter P xs)"
      using j by (rule filter_nonempty)
    with Cons.IH [OF j] Suc show ?thesis by auto
  qed
qed

lemma try_borrow_inv: "pool_inv p \<Longrightarrow> pool_inv (snd (try_borrow w p))"
  by (auto simp: pool_inv_def try_borrow_def filter_update_length
      split: option.splits dest!: find_idle_Some)

lemma try_borrow_result:
  "try_borrow w p = (borrowed_slot i, p1) \<Longrightarrow> pool_inv p \<Longrightarrow>
     i < length (slots p1) \<and> slot_borrowed (slots p1 ! i)"
  by (auto simp: pool_inv_def try_borrow_def nth_append
      split: option.splits if_splits dest!: find_idle_Some)

lemma try_borrow_max: "max_open (snd (try_borrow w p)) = max_open p"
  by (auto simp: try_borrow_def split: option.splits)

lemma release_inv: "pool_inv p \<Longrightarrow> pool_inv (release i p)"
  by (auto simp: pool_inv_def release_def filter_update_length)

lemma close_all_inv: "pool_inv p \<Longrightarrow> pool_inv (close_all p)"
  by (auto simp: pool_inv_def close_all_def)

lemma txn_scope_begin_inv: "pool_inv p \<Longrightarrow> pool_inv (snd (txn_scope_begin p))"
proof -
  assume inv: "pool_inv p"
  obtain r p1 where b: "try_borrow True p = (r, p1)" by force
  with try_borrow_inv [OF inv, of True] have inv1: "pool_inv p1" by simp
  show ?thesis
  proof (cases r)
    case (borrowed_slot i)
    with try_borrow_result [OF _ inv] b
    have i: "i < length (slots p1)" "slot_borrowed (slots p1 ! i)" by auto
    from filter_nonempty [of i "slots p1" slot_borrowed, OF i]
    have "0 < length (filter slot_borrowed (slots p1))" .
    with i inv1 b borrowed_slot show ?thesis
      by (simp add: txn_scope_begin_def pool_inv_def filter_update_length)
  qed (use b inv1 in \<open>simp_all add: txn_scope_begin_def\<close>)
qed

lemma pool_step_inv: "pool_inv p \<Longrightarrow> pool_inv (pool_step p ev)"
  by (cases ev) (simp_all add: try_borrow_inv release_inv close_all_inv txn_scope_begin_inv)

lemma pool_step_max: "max_open (pool_step p ev) = max_open p"
  by (cases ev)
    (auto simp: try_borrow_def release_def close_all_def txn_scope_begin_def
      split: option.splits prod.splits borrow_result.splits if_splits)

lemma foldl_pool_inv: "pool_inv p \<Longrightarrow> pool_inv (foldl pool_step p evs)"
  by (induction evs arbitrary: p) (simp_all add: pool_step_inv)

lemma foldl_pool_max: "max_open (foldl pool_step p evs) = max_open p"
  by (induction evs arbitrary: p) (simp_all add: pool_step_max)

theorem pool_counters:
  "borrowed_count (pool_after m evs) \<le> open_count (pool_after m evs) \<and>
   open_count (pool_after m evs) \<le> max_open (pool_after m evs) \<and>
   max_open (pool_after m evs) = m \<and>
   open_count (pool_after m evs) - borrowed_count (pool_after m evs)
     = idle_slots (pool_after m evs)"
proof -
  let ?p = "pool_after m evs"
  have "pool_inv (new_pool m)" by (simp add: pool_inv_def new_pool_def)
  then have inv: "pool_inv ?p" unfolding pool_after_def by (rule foldl_pool_inv)
  have max: "max_open ?p = m" by (simp add: pool_after_def foldl_pool_max new_pool_def)
  have "length (filter slot_borrowed (slots ?p)) + idle_slots ?p = length (slots ?p)"
    unfolding idle_slots_def by (rule sum_length_filter_compl)
  with inv max show ?thesis
    by (simp add: pool_inv_def open_count_def borrowed_count_def)
qed

text \<open>
  The exhaustion and the close-drain scenarios of the spec (section 8), run on the model,
  with the counters along the way.
\<close>

lemmas pool_eval = pool_after_def new_pool_def try_borrow_def release_def close_all_def
  txn_scope_begin_def writer_active_def open_count_def borrowed_count_def idle_slots_def

theorem pool_counters_witness:
  "fst (try_borrow True (pool_after 1 [ev_borrow True])) = empty \<and>
   fst (try_borrow True (pool_after 1 [ev_borrow True, ev_release 0])) = borrowed_slot 0 \<and>
   fst (try_borrow False (pool_after 5 [ev_borrow True, ev_borrow False, ev_close_all])) = busy \<and>
   open_count (pool_after 5 [ev_borrow True, ev_borrow False, ev_close_all]) = 2 \<and>
   borrowed_count (pool_after 5 [ev_borrow True, ev_borrow False, ev_close_all]) = 2 \<and>
   idle_slots (pool_after 5 [ev_borrow True, ev_borrow False, ev_close_all]) = 0 \<and>
   open_count (pool_after 5 [ev_borrow True, ev_borrow False, ev_close_all, ev_release 0]) = 2 \<and>
   borrowed_count (pool_after 5 [ev_borrow True, ev_borrow False, ev_close_all, ev_release 0]) = 1 \<and>
   idle_slots (pool_after 5 [ev_borrow True, ev_borrow False, ev_close_all, ev_release 0]) = 1 \<and>
   open_count (pool_after 5 [ev_borrow True, ev_borrow False, ev_close_all,
                             ev_release 0, ev_release 1, ev_close_all]) = 0 \<and>
   open_count (pool_after 5 [ev_borrow True, ev_borrow False, ev_close_all,
                             ev_release 0, ev_release 1, ev_close_all, ev_borrow False]) = 1"
proof -
  let ?p = "pool_after 5 [ev_borrow True, ev_borrow False, ev_close_all, ev_release 0]"
  have o: "open_count ?p = 2" and b: "borrowed_count ?p = 1"
    by (simp_all add: pool_eval)
  from pool_counters [of 5 "[ev_borrow True, ev_borrow False, ev_close_all, ev_release 0]"] o b
  have "idle_slots ?p = 1" by simp
  with o b show ?thesis by (simp add: pool_eval)
qed

end
